theory Spec2Isabelle
  imports Complex_Main
begin

section \<open>Two-component reaction-diffusion on a periodic grid\<close>

text \<open>
  The notebook \<^verbatim>\<open>tf_reaction_diffusion_2c.ipynb\<close> integrates
  \<^verbatim>\<open>dA/dt = DA lap A - A B^2 + f (1 - A)\<close>,
  \<^verbatim>\<open>dB/dt = DB lap B + A B^2 - (k + f) B\<close>
  with a TensorFlow graph that is built once and evaluated \<^verbatim>\<open>N_TIMES\<close> times.

  Conventions of the embedding.
  \<^item> A rank-2 array is a list of rows, a rank-4 tensor a list (batch) of lists (rows) of
    lists (columns) of lists (channels), in row-major order as numpy and TensorFlow store
    them.
  \<^item> A \<^verbatim>\<open>float32\<close> value is the real number it stores. The constants of the graph are
    the stored values: the kernel weights are the binary32 numbers nearest to 0.05 and
    0.2, not these decimals. The operations on tensors (products, sums, the convolution)
    are exact: their rounding, and the order in which \<^verbatim>\<open>conv2d\<close> accumulates, are not
    modelled, so an equation between cell values below is an equation of exact arithmetic
    on the stored values.
  \<^item> Python integers are \<^typ>\<open>int\<close>; array extents are \<^typ>\<open>nat\<close>.
  \<^item> Exceptions of the Python run are values of \<open>error\<close>.
  \<^item> The cells that plot the result read the list \<^verbatim>\<open>evolution\<close> and are not part of
    the embedding.
\<close>

subsection \<open>Global parameters\<close>

text \<open>
  The cell \<^verbatim>\<open># global parameters\<close>. The reaction constants \<^verbatim>\<open>f\<close> and \<^verbatim>\<open>k\<close> are the
  fields \<open>feed_f\<close> and \<open>kill_k\<close>. The real-valued parameters are arbitrary reals in
  every theorem below; \<open>default_params\<close> holds the numbers as the cell writes them.
\<close>

record params =
  N_POINTS :: int
  SEED_START :: int
  SEED_SIZE :: int
  N_TIMES :: int
  TIME_STEP :: real
  N_STEPS :: int
  DA :: real
  DB :: real
  feed_f :: real
  kill_k :: real

definition default_params :: params where
  "default_params =
     \<lparr>N_POINTS = 400, SEED_START = 100, SEED_SIZE = 5, N_TIMES = 20000, TIME_STEP = 1.0,
      N_STEPS = 10, DA = 1.0, DB = 0.5, feed_f = 0.055, kill_k = 0.062\<rparr>"

datatype error =
    NegativeDimensions  \<comment> \<open>\<^verbatim>\<open>np.ones\<close> with a negative extent\<close>
  | ConvNegativeDimension  \<comment> \<open>\<^verbatim>\<open>conv2d\<close>, VALID: the input is smaller than the filter\<close>
  | FeedShapeMismatch  \<comment> \<open>\<^verbatim>\<open>sess.run\<close>: a fed array has not the placeholder's shape\<close>
  | ZeroDivisionError  \<comment> \<open>\<^verbatim>\<open>(i+1) % N_STEPS\<close> with \<^verbatim>\<open>N_STEPS == 0\<close>\<close>

type_synonym field = "real list list"
type_synonym tensor4 = "real list list list list"
type_synonym state = "field \<times> field"

definition is_field :: "nat \<Rightarrow> 'a list list \<Rightarrow> bool" where
  "is_field n a \<longleftrightarrow> length a = n \<and> (\<forall>row \<in> set a. length row = n)"

subsection \<open>Starting conditions\<close>

text \<open>
  Python's slice \<^verbatim>\<open>x[start:stop]\<close> on an axis of extent \<open>n\<close>: a negative bound counts
  from the end, and both bounds are clipped to the axis. \<open>slice_index n i\<close> is the
  clipped bound.
\<close>

definition slice_index :: "nat \<Rightarrow> int \<Rightarrow> nat" where
  "slice_index n i = (if i < 0 then nat (max 0 (i + int n)) else min (nat i) n)"

text \<open>\<^verbatim>\<open>b[r0:r1, c0:c1] = v\<close> on a rank-2 array.\<close>

definition assign_block :: "'a list list \<Rightarrow> int \<Rightarrow> int \<Rightarrow> int \<Rightarrow> int \<Rightarrow> 'a \<Rightarrow> 'a list list" where
  "assign_block b r0 r1 c0 c1 v =
     map (\<lambda>i.
       if slice_index (length b) r0 \<le> i \<and> i < slice_index (length b) r1
       then map (\<lambda>j.
              if slice_index (length (b ! i)) c0 \<le> j \<and> j < slice_index (length (b ! i)) c1
              then v else b ! i ! j)
            [0..<length (b ! i)]
       else b ! i)
     [0..<length b]"

text \<open>
  \<^verbatim>\<open>a = np.ones((N_POINTS, N_POINTS))\<close>, \<^verbatim>\<open>b = np.zeros((N_POINTS, N_POINTS))\<close>,
  \<^verbatim>\<open>b[SEED_START:SEED_START+SEED_SIZE, SEED_START:SEED_START+SEED_SIZE] = 1.0\<close>.
  numpy refuses a negative extent; the slice assignment itself never raises.
\<close>

definition initialize :: "params \<Rightarrow> error + state" where
  "initialize p =
     (if N_POINTS p < 0 then Inl NegativeDimensions
      else
        let n = nat (N_POINTS p);
            a = replicate n (replicate n 1);
            b = replicate n (replicate n 0);
            b = assign_block b (SEED_START p) (SEED_START p + SEED_SIZE p)
                  (SEED_START p) (SEED_START p + SEED_SIZE p) 1
        in Inr (a, b))"

subsection \<open>Reshaping\<close>

text \<open>
  \<^verbatim>\<open>tf.reshape\<close> keeps the row-major buffer and regroups it. \<open>chop r n xs\<close> cuts the
  buffer \<open>xs\<close> into \<open>r\<close> consecutive blocks of \<open>n\<close> elements.
\<close>

fun chop :: "nat \<Rightarrow> nat \<Rightarrow> 'a list \<Rightarrow> 'a list list" where
  "chop 0 n xs = []"
| "chop (Suc r) n xs = take n xs # chop r n (drop n xs)"

definition flatten2 :: "'a list list \<Rightarrow> 'a list" where
  "flatten2 t = concat t"

definition flatten4 :: "'a list list list list \<Rightarrow> 'a list" where
  "flatten4 t = concat (concat (concat t))"

definition reshape2 :: "nat \<Rightarrow> nat \<Rightarrow> 'a list \<Rightarrow> 'a list list" where
  "reshape2 d0 d1 buf = chop d0 d1 buf"

definition reshape4 :: "nat \<Rightarrow> nat \<Rightarrow> nat \<Rightarrow> nat \<Rightarrow> 'a list \<Rightarrow> 'a list list list list" where
  "reshape4 d0 d1 d2 d3 buf =
     map (\<lambda>blk. map (chop d2 d3) (chop d1 (d2 * d3) blk)) (chop d0 (d1 * d2 * d3) buf)"

subsection \<open>Periodic padding\<close>

text \<open>
  \<^verbatim>\<open>x[-size:]\<close> is the last \<open>size\<close> entries of an axis, and the whole axis when
  \<open>size\<close> is 0 (\<^verbatim>\<open>-0\<close> is \<^verbatim>\<open>0\<close>) or exceeds the extent; \<^verbatim>\<open>x[0:size]\<close> is
  \<open>take size x\<close>.
\<close>

definition last_slice :: "nat \<Rightarrow> 'a list \<Rightarrow> 'a list" where
  "last_slice sz xs = (if sz = 0 then xs else drop (length xs - sz) xs)"

text \<open>
  \<^verbatim>\<open>
  def wrap_pad(tensor, size):
      M1 = tf.concat([tensor[:,:,-size:,:], tensor, tensor[:,:,0:size,:]], 2)
      M1 = tf.concat([M1[:,-size:,:,:], M1, M1[:,0:size,:,:]], 1)
      return M1
  \<close>
  Axis 2 (columns) is wrapped first, then axis 1 (rows) of the result. The entries of the
  innermost list handled here are the channel vectors of axis 3.
\<close>

definition wrap_pad :: "'a list list list \<Rightarrow> nat \<Rightarrow> 'a list list list" where
  "wrap_pad tensor sz =
     (let M1 = map (map (\<lambda>row. last_slice sz row @ row @ take sz row)) tensor;
          M1 = map (\<lambda>img. last_slice sz img @ img @ take sz img) M1
      in M1)"

subsection \<open>The computation graph\<close>

text \<open>
  \<^verbatim>\<open>tf.nn.conv2d(input, filter, strides=[1,1,1,1], padding='VALID')\<close> with an input
  \<^verbatim>\<open>[batch, height, width, in_channels]\<close> and a filter
  \<^verbatim>\<open>[filter_height, filter_width, in_channels, out_channels]\<close>:
  \<^verbatim>\<open>output[b,i,j,k] = sum over di,dj,q of input[b,i+di,j+dj,q] * filter[di,dj,q,k]\<close>,
  with output extents \<^verbatim>\<open>height - filter_height + 1\<close> and \<^verbatim>\<open>width - filter_width + 1\<close>.
  TensorFlow refuses an input smaller than the filter when the node is created; that
  check is \<open>build_graph\<close> below, so the extents here are never cut off at 0 in a run.
\<close>

definition conv2d_valid :: "tensor4 \<Rightarrow> tensor4 \<Rightarrow> tensor4" where
  "conv2d_valid inp flt =
     (let kh = length flt; kw = length (flt ! 0);
          cin = length (flt ! 0 ! 0); cout = length (flt ! 0 ! 0 ! 0)
      in map (\<lambda>img.
           map (\<lambda>i.
             map (\<lambda>j.
               map (\<lambda>c.
                 sum_list (concat (map (\<lambda>di. concat (map (\<lambda>dj.
                   map (\<lambda>q. img ! (i + di) ! (j + dj) ! q * flt ! di ! dj ! q ! c)
                     [0..<cin]) [0..<kw])) [0..<kh])))
               [0..<cout])
             [0..<length (img ! 0) + 1 - kw])
           [0..<length img + 1 - kh])
         inp)"

text \<open>Elementwise operations on tensors of one shape, and a scalar broadcast.\<close>

definition ew1 :: "(real \<Rightarrow> real) \<Rightarrow> tensor4 \<Rightarrow> tensor4" where
  "ew1 g t = map (map (map (map g))) t"

definition ew2 :: "(real \<Rightarrow> real \<Rightarrow> real) \<Rightarrow> tensor4 \<Rightarrow> tensor4 \<Rightarrow> tensor4" where
  "ew2 g s t = map2 (map2 (map2 (map2 g))) s t"

text \<open>
  \<^verbatim>\<open>kernel = tf.constant([[0.05, 0.2, 0.05], [0.2, -1, 0.2], [0.05, 0.2, 0.05]], dtype=tf.float32)\<close>,
  \<^verbatim>\<open>kernel = tf.reshape(kernel, [3, 3, 1, 1])\<close>,
  \<^verbatim>\<open>kernel_a = DA * TIME_STEP * kernel\<close>, \<^verbatim>\<open>kernel_b = DB * TIME_STEP * kernel\<close>.
  The constant has type \<^verbatim>\<open>float32\<close>: each literal is stored as the nearest binary32
  number, a 24-bit significand times a power of 2. Neither 0.05 nor 0.2 is such a number;
  \<open>f32_0_05\<close> and \<open>f32_0_2\<close> are the values stored for them, and -1 is stored as it
  is.
\<close>

definition f32_0_05 :: real where
  "f32_0_05 = 13421773 / 2 ^ 28"

definition f32_0_2 :: real where
  "f32_0_2 = 13421773 / 2 ^ 26"

definition kernel :: tensor4 where
  "kernel = reshape4 3 3 1 1
     (flatten2 [[f32_0_05, f32_0_2, f32_0_05], [f32_0_2, -1, f32_0_2],
                [f32_0_05, f32_0_2, f32_0_05]])"

definition kernel_a :: "params \<Rightarrow> tensor4" where
  "kernel_a p = ew1 (\<lambda>w. DA p * TIME_STEP p * w) kernel"

definition kernel_b :: "params \<Rightarrow> tensor4" where
  "kernel_b p = ew1 (\<lambda>w. DB p * TIME_STEP p * w) kernel"

text \<open>
  \<^verbatim>\<open>input_a = tf.reshape(current_a, [1, N_POINTS, N_POINTS, 1])\<close>, and likewise
  \<^verbatim>\<open>input_b\<close>.
\<close>

definition input_a :: "params \<Rightarrow> field \<Rightarrow> tensor4" where
  "input_a p current_a = reshape4 1 (nat (N_POINTS p)) (nat (N_POINTS p)) 1 (flatten2 current_a)"

definition input_b :: "params \<Rightarrow> field \<Rightarrow> tensor4" where
  "input_b p current_b = reshape4 1 (nat (N_POINTS p)) (nat (N_POINTS p)) 1 (flatten2 current_b)"

text \<open>
  \<^verbatim>\<open>diff_a = tf.nn.conv2d(wrap_pad(input_a, 1), kernel_a, strides=[1,1,1,1], padding='VALID')\<close>
\<close>

definition diff_a :: "params \<Rightarrow> field \<Rightarrow> tensor4" where
  "diff_a p current_a = conv2d_valid (wrap_pad (input_a p current_a) 1) (kernel_a p)"

definition diff_b :: "params \<Rightarrow> field \<Rightarrow> tensor4" where
  "diff_b p current_b = conv2d_valid (wrap_pad (input_b p current_b) 1) (kernel_b p)"

text \<open>
  \<^verbatim>\<open>react_a = TIME_STEP * (-input_a*input_b*input_b + f*(1.0 - input_a))\<close>
  \<^verbatim>\<open>react_b = TIME_STEP * (input_a*input_b*input_b - (k+f)*input_b)\<close>
  Python reads \<^verbatim>\<open>-x*y*y\<close> as \<^verbatim>\<open>((-x)*y)*y\<close>.
\<close>

definition react_a :: "params \<Rightarrow> field \<Rightarrow> field \<Rightarrow> tensor4" where
  "react_a p current_a current_b =
     ew1 (\<lambda>x. TIME_STEP p * x)
       (ew2 (+)
          (ew2 (*) (ew2 (*) (ew1 uminus (input_a p current_a)) (input_b p current_b))
             (input_b p current_b))
          (ew1 (\<lambda>x. feed_f p * x) (ew1 (\<lambda>x. 1.0 - x) (input_a p current_a))))"

definition react_b :: "params \<Rightarrow> field \<Rightarrow> field \<Rightarrow> tensor4" where
  "react_b p current_a current_b =
     ew1 (\<lambda>x. TIME_STEP p * x)
       (ew2 (-)
          (ew2 (*) (ew2 (*) (input_a p current_a) (input_b p current_b)) (input_b p current_b))
          (ew1 (\<lambda>x. (kill_k p + feed_f p) * x) (input_b p current_b)))"

text \<open>
  \<^verbatim>\<open>next_a = input_a + diff_a + react_a\<close>,
  \<^verbatim>\<open>next_a = tf.reshape(next_a, [N_POINTS, N_POINTS])\<close>, and likewise \<^verbatim>\<open>next_b\<close>.
\<close>

definition next_a :: "params \<Rightarrow> field \<Rightarrow> field \<Rightarrow> field" where
  "next_a p current_a current_b =
     reshape2 (nat (N_POINTS p)) (nat (N_POINTS p))
       (flatten4 (ew2 (+) (ew2 (+) (input_a p current_a) (diff_a p current_a))
          (react_a p current_a current_b)))"

definition next_b :: "params \<Rightarrow> field \<Rightarrow> field \<Rightarrow> field" where
  "next_b p current_a current_b =
     reshape2 (nat (N_POINTS p)) (nat (N_POINTS p))
       (flatten4 (ew2 (+) (ew2 (+) (input_b p current_b) (diff_b p current_b))
          (react_b p current_a current_b)))"

text \<open>
  Creating the nodes fixes every shape. The padded input of \<^verbatim>\<open>conv2d\<close> has extent
  \<^verbatim>\<open>N_POINTS + 2\<close> when \<^verbatim>\<open>N_POINTS\<close> is positive and 0 when it is 0 (the slices of an
  empty axis are empty), and must not be smaller than the 3 by 3 filter.
\<close>

definition build_graph :: "params \<Rightarrow> error + unit" where
  "build_graph p =
     (if N_POINTS p < 0 then Inl NegativeDimensions
      else if (if N_POINTS p = 0 then 0 else N_POINTS p + 2) < 3 then Inl ConvNegativeDimension
      else Inr ())"

subsection \<open>One evaluation and the loop\<close>

text \<open>
  \<^verbatim>\<open>new_a, new_b = sess.run([next_a, next_b], feed_dict={current_a: a, current_b: b})\<close>:
  both nodes are evaluated on the same fed arrays, which must have the placeholders'
  shape \<^verbatim>\<open>[N_POINTS, N_POINTS]\<close>.
\<close>

definition sess_run :: "params \<Rightarrow> state \<Rightarrow> error + state" where
  "sess_run p s =
     (case s of (a, b) \<Rightarrow>
        if is_field (nat (N_POINTS p)) a \<and> is_field (nat (N_POINTS p)) b
        then Inr (next_a p a b, next_b p a b)
        else Inl FeedShapeMismatch)"

text \<open>
  \<^verbatim>\<open>
  for i in tqdm(range(N_TIMES)):
      new_a, new_b = sess.run(...)
      if (i+1)%N_STEPS==0:
          evolution.append([new_a, new_b])
      a = new_a
      b = new_b
  \<close>
  The loop over the indices still to run, with the current state and the list
  \<^verbatim>\<open>evolution\<close> passed along. Python's \<^verbatim>\<open>%\<close> on integers is the floored remainder,
  which is \<open>mod\<close> on \<^typ>\<open>int\<close>, and raises for a zero divisor after the evaluation
  of the iteration.
\<close>

fun loop :: "params \<Rightarrow> int list \<Rightarrow> state \<Rightarrow> state list \<Rightarrow> error + state list" where
  "loop p [] s evolution = Inr evolution"
| "loop p (i # rest) s evolution =
     (case sess_run p s of
        Inl e \<Rightarrow> Inl e
      | Inr new \<Rightarrow>
          if N_STEPS p = 0 then Inl ZeroDivisionError
          else loop p rest new
                 (if (i + 1) mod N_STEPS p = 0 then evolution @ [new] else evolution))"

text \<open>\<^verbatim>\<open>range(N_TIMES)\<close>: empty when \<^verbatim>\<open>N_TIMES\<close> is not positive.\<close>

definition range_py :: "int \<Rightarrow> int list" where
  "range_py n = [0..n - 1]"

text \<open>
  The whole run: the starting conditions with \<^verbatim>\<open>evolution = [[a,b]]\<close>, the graph, the
  loop. The result is the list \<^verbatim>\<open>evolution\<close>.
\<close>

definition run :: "params \<Rightarrow> error + state list" where
  "run p =
     (case initialize p of
        Inl e \<Rightarrow> Inl e
      | Inr s \<Rightarrow>
          (case build_graph p of
             Inl e \<Rightarrow> Inl e
           | Inr _ \<Rightarrow> loop p (range_py (N_TIMES p)) s [s]))"

subsection \<open>Notions used to state and prove the properties\<close>

text \<open>
  \<open>lift F\<close> is the rank-4 tensor of shape \<^verbatim>\<open>[1, rows, cols, 1]\<close> that holds the rank-2
  array \<open>F\<close>; \<open>wrap1\<close> is the width-1 periodic extension of one axis, the step
  \<open>wrap_pad\<close> applies to each of its two axes.
\<close>

definition lift :: "'a list list \<Rightarrow> 'a list list list list" where
  "lift F = [map (map (\<lambda>x. [x])) F]"

definition wrap1 :: "'a list \<Rightarrow> 'a list" where
  "wrap1 xs = last_slice 1 xs @ xs @ take 1 xs"

text \<open>
  \<open>steps p m s\<close> is the state after exactly \<open>m\<close> evaluations \<open>sess_run\<close> in sequence
  from \<open>s\<close>, each fed the result of the one before.
\<close>

fun steps :: "params \<Rightarrow> nat \<Rightarrow> state \<Rightarrow> error + state" where
  "steps p 0 s = Inr s"
| "steps p (Suc m) s = (case steps p m s of Inl e \<Rightarrow> Inl e | Inr s' \<Rightarrow> sess_run p s')"

text \<open>Both arrays of a state have the placeholders' shape.\<close>

definition shape_ok :: "params \<Rightarrow> state \<Rightarrow> bool" where
  "shape_ok p s \<longleftrightarrow> is_field (nat (N_POINTS p)) (fst s) \<and> is_field (nat (N_POINTS p)) (snd s)"

text \<open>
  \<open>cells n g\<close> is the \<open>n\<close> by \<open>n\<close> array with entry \<open>g i j\<close> at row \<open>i\<close>, column
  \<open>j\<close>.
\<close>

definition cells :: "nat \<Rightarrow> (nat \<Rightarrow> nat \<Rightarrow> 'a) \<Rightarrow> 'a list list" where
  "cells n g = map (\<lambda>i. map (\<lambda>j. g i j) [0..<n]) [0..<n]"

text \<open>
  \<open>padded F\<close> is \<open>F\<close> with the periodic border of width 1 on both axes, as a rank-2
  array; \<open>lap9 c G i j\<close> is the 3 by 3 weighted sum of \<open>G\<close> with top-left corner
  \<open>(i, j)\<close>, the weights being \<open>c\<close> times the kernel's.
\<close>

definition padded :: "'a list list \<Rightarrow> 'a list list" where
  "padded F = wrap1 (map wrap1 F)"

definition lap9 :: "real \<Rightarrow> field \<Rightarrow> nat \<Rightarrow> nat \<Rightarrow> real" where
  "lap9 c G i j =
     G ! i ! j * (c * f32_0_05) + (G ! i ! (j + 1) * (c * f32_0_2) +
     (G ! i ! (j + 2) * (c * f32_0_05) +
     (G ! (i + 1) ! j * (c * f32_0_2) + (G ! (i + 1) ! (j + 1) * (c * - 1) +
     (G ! (i + 1) ! (j + 2) * (c * f32_0_2) +
     (G ! (i + 2) ! j * (c * f32_0_05) + (G ! (i + 2) ! (j + 1) * (c * f32_0_2) +
      G ! (i + 2) ! (j + 2) * (c * f32_0_05))))))))"

section \<open>Auxiliary lemmas\<close>

lemma chop_concat: "\<forall>row \<in> set xss. length row = n \<Longrightarrow> chop (length xss) n (concat xss) = xss"
  by (induction xss) auto

lemma chop_singletons: "chop (length xs) (Suc 0) xs = map (\<lambda>x. [x]) xs"
  by (induction xs) auto

lemma length_concat_rows: "\<forall>row \<in> set xss. length row = n \<Longrightarrow> length (concat xss) = length xss * n"
  by (induction xss) auto

lemma reshape4_field:
  assumes "is_field n a"
  shows "reshape4 (Suc 0) n n (Suc 0) (flatten2 a) = lift a"
proof -
  have len: "length a = n" and rows: "\<forall>row \<in> set a. length row = n"
    using assms by (auto simp: is_field_def)
  have "length (concat a) = n * n"
    using length_concat_rows [OF rows] len by simp
  then have one: "take (n * n) (concat a) = concat a"
    by simp
  have two: "chop n n (concat a) = a"
    using chop_concat [OF rows] len by simp
  have three: "map (chop n (Suc 0)) a = map (map (\<lambda>x. [x])) a"
  proof (rule map_cong [OF refl])
    fix row assume "row \<in> set a"
    then have "length row = n" using rows by blast
    then show "chop n (Suc 0) row = map (\<lambda>x. [x]) row"
      using chop_singletons [of row] by simp
  qed
  show ?thesis
    by (simp add: reshape4_def flatten2_def lift_def one two three)
qed

lemma flatten4_lift: "flatten4 (lift F) = concat F"
  by (simp add: flatten4_def lift_def) (induction F, auto)

lemma reshape2_lift:
  "is_field n F \<Longrightarrow> reshape2 n n (flatten4 (lift F)) = F"
  using chop_concat [of F n] by (simp add: flatten4_lift reshape2_def is_field_def)

lemma ew1_lift: "ew1 g (lift F) = lift (map (map g) F)"
  by (simp add: ew1_def lift_def)

lemma map2_map_sing: "map2 (map2 g) (map (\<lambda>x. [x]) xs) (map (\<lambda>x. [x]) ys) = map (\<lambda>x. [x]) (map2 g xs ys)"
  by (simp add: zip_map_map split_def)

lemma ew2_lift: "ew2 g (lift F) (lift G) = lift (map2 (map2 g) F G)"
  by (simp add: ew2_def lift_def zip_map_map map2_map_sing  split_def)

lemma is_field_cells: "is_field n (cells n g)"
  by (simp add: is_field_def cells_def)

lemma cells_nth: "i < n \<Longrightarrow> j < n \<Longrightarrow> cells n g ! i ! j = g i j"
  by (simp add: cells_def)

lemma field_as_cells: "is_field n F \<Longrightarrow> F = cells n (\<lambda>i j. F ! i ! j)"
  unfolding is_field_def cells_def
  by (auto intro!: nth_equalityI)

lemma map_cells: "map (map g) (cells n h) = cells n (\<lambda>i j. g (h i j))"
  by (simp add: cells_def)

lemma map2_cells: "map2 (map2 g) (cells n h) (cells n h') = cells n (\<lambda>i j. g (h i j) (h' i j))"
  by (simp add: cells_def map2_map_map)

lemma last_slice_map: "last_slice sz (map g xs) = map g (last_slice sz xs)"
  by (simp add: last_slice_def drop_map)

lemma wrap1_map: "wrap1 (map g xs) = map g (wrap1 xs)"
  by (simp add: wrap1_def last_slice_map take_map)

lemma wrap_pad_lift: "wrap_pad (lift F) (Suc 0) = lift (wrap1 (map wrap1 F))"
proof -
  have "wrap_pad (lift F) (Suc 0) = [wrap1 (map wrap1 (map (map (\<lambda>x. [x])) F))]"
    unfolding wrap_pad_def Let_def lift_def wrap1_def [abs_def] by simp
  also have "map wrap1 (map (map (\<lambda>x. [x])) F) = map (map (\<lambda>x. [x])) (map wrap1 F)"
    by (simp add: wrap1_map)
  finally show ?thesis
    by (simp only: wrap1_map lift_def)
qed

lemma length_wrap1: "xs \<noteq> [] \<Longrightarrow> length (wrap1 xs) = length xs + 2"
  by (cases xs) (auto simp: wrap1_def last_slice_def)

lemma wrap1_nth_0: "xs \<noteq> [] \<Longrightarrow> wrap1 xs ! 0 = xs ! (length xs - 1)"
  by (simp add: wrap1_def last_slice_def nth_append)

lemma wrap1_nth_Suc: "i < length xs \<Longrightarrow> wrap1 xs ! Suc i = xs ! i"
proof -
  assume i: "i < length xs"
  then have "length (last_slice 1 xs) = 1"
    by (simp add: last_slice_def)
  then show ?thesis
    using i by (simp add: wrap1_def nth_append)
qed

lemma wrap1_nth_last: "xs \<noteq> [] \<Longrightarrow> wrap1 xs ! Suc (length xs) = xs ! 0"
  by (cases xs) (auto simp: wrap1_def last_slice_def nth_append)

lemma wrap1_nth:
  assumes "xs \<noteq> []" "i < length xs + 2"
  shows "wrap1 xs ! i = xs ! ((i + length xs - 1) mod length xs)"
proof -
  consider "i = 0" | k where "i = Suc k" "k < length xs" | "i = Suc (length xs)"
    using assms(2) by (cases i) (auto simp: less_Suc_eq)
  then show ?thesis
  proof cases
    case 1
    then show ?thesis using assms(1) by (simp add: wrap1_nth_0)
  next
    case 2
    then show ?thesis by (simp add: wrap1_nth_Suc)
  next
    case 3
    then show ?thesis using assms(1) by (simp add: wrap1_nth_last)
  qed
qed

lemma upt_0_3: "[0..<3] = [0, 1, 2]"
  by (simp add: upt_rec)

lemma upt_0_1: "[0..<1] = [0]"
  by simp

text \<open>
  The stored weights are the binary32 numbers nearest to the literals: the significand
  13421773 has 24 bits, and the distance to the literal is less than half a unit in the
  last place (\<open>2\<^sup>-\<^sup>2\<^sup>8\<close> for 0.05, \<open>2\<^sup>-\<^sup>2\<^sup>6\<close> for 0.2).
\<close>

lemma stored_weights_nearest:
  "(2::nat) ^ 23 \<le> 13421773 \<and> (13421773::nat) < 2 ^ 24
   \<and> \<bar>0.05 - f32_0_05\<bar> < 1 / 2 ^ 29 \<and> \<bar>0.2 - f32_0_2\<bar> < 1 / 2 ^ 27"
  by (simp add: f32_0_05_def f32_0_2_def)

lemma kernel_val:
  "kernel = [[[[f32_0_05]], [[f32_0_2]], [[f32_0_05]]], [[[f32_0_2]], [[-1]], [[f32_0_2]]],
             [[[f32_0_05]], [[f32_0_2]], [[f32_0_05]]]]"
  by (simp add: kernel_def reshape4_def flatten2_def eval_nat_numeral)

lemma scaled_kernel:
  "ew1 (\<lambda>w. c * w) kernel =
     [[[[c * f32_0_05]], [[c * f32_0_2]], [[c * f32_0_05]]],
      [[[c * f32_0_2]], [[c * - 1]], [[c * f32_0_2]]],
      [[[c * f32_0_05]], [[c * f32_0_2]], [[c * f32_0_05]]]]"
  unfolding kernel_val ew1_def by (simp only: list.map)

lemma conv2d_valid_lift:
  assumes "length G = h" and "\<forall>row \<in> set G. length row = w"
  shows "conv2d_valid (lift G) (ew1 (\<lambda>w. c * w) kernel) =
           lift (map (\<lambda>i. map (\<lambda>j. lap9 c G i j) [0..<w - 2]) [0..<h - 2])"
proof -
  define K where "K = ew1 (\<lambda>w. c * w) kernel"
  define img where "img = map (map (\<lambda>x. [x])) G"
  define summand where "summand = (\<lambda>i j di dj q. img ! (i + di) ! (j + dj) ! q * K ! di ! dj ! q ! 0)"
  define total where "total = (\<lambda>i j. sum_list (concat (map (\<lambda>di. concat (map (\<lambda>dj.
                   map (\<lambda>q. summand i j di dj q) [0..<1]) [0..<3])) [0..<3])))"
  have dims: "length K = 3" "length (K ! 0) = 3" "length (K ! 0 ! 0) = 1"
    "length (K ! 0 ! 0 ! 0) = 1"
    by (simp_all add: K_def scaled_kernel)
  have len_img: "length img = h"
    by (simp add: img_def assms)
  have width: "length (img ! 0) = w" if "2 < h"
  proof -
    have "G ! 0 \<in> set G" using that assms by (intro nth_mem) simp
    then have "length (G ! 0) = w" using assms by blast
    then show ?thesis using that assms by (simp add: img_def)
  qed
  have cell: "img ! (i + di) ! (j + dj) ! 0 = G ! (i + di) ! (j + dj)"
    if "i < h - 2" "j < w - 2" "di < 3" "dj < 3" for i j di dj
  proof -
    have r: "i + di < length G" using that assms by simp
    then have "G ! (i + di) \<in> set G" by simp
    then have "length (G ! (i + di)) = w" using assms by blast
    then have "j + dj < length (G ! (i + di))" using that by simp
    then show ?thesis using r by (simp add: img_def)
  qed
  have total: "total i j = lap9 c G i j" if "i < h - 2" "j < w - 2" for i j
  proof -
    note c = cell [OF that]
    show ?thesis
      unfolding total_def summand_def upt_0_3 upt_0_1
      using c [of 0 0] c [of 0 1] c [of 0 2] c [of 1 0] c [of 1 1] c [of 1 2]
        c [of 2 0] c [of 2 1] c [of 2 2]
      by (simp add: K_def scaled_kernel lap9_def)
  qed
  have "conv2d_valid [img] K =
          [map (\<lambda>i. map (\<lambda>j. [total i j]) [0..<length (img ! 0) + 1 - 3])
             [0..<length img + 1 - 3]]"
    unfolding conv2d_valid_def Let_def dims total_def summand_def upt_0_1
    by (simp only: list.map)
  also have "\<dots> = [map (\<lambda>i. map (\<lambda>j. [total i j]) [0..<w - 2]) [0..<h - 2]]"
    using width by (cases "2 < h") (simp_all add: len_img)
  also have "\<dots> = [map (\<lambda>i. map (\<lambda>j. [lap9 c G i j]) [0..<w - 2]) [0..<h - 2]]"
    using total by simp
  finally show ?thesis
    by (simp add: lift_def K_def img_def o_def)
qed

lemma set_wrap1: "set (wrap1 xs) \<subseteq> set xs"
proof -
  have "set (last_slice 1 xs) \<subseteq> set xs"
    using set_drop_subset [of "length xs - 1" xs] by (simp add: last_slice_def)
  moreover have "set (take 1 xs) \<subseteq> set xs"
    by (rule set_take_subset)
  ultimately show ?thesis
    unfolding wrap1_def set_append by blast
qed

lemma padded_shape:
  assumes "is_field n F" "0 < n"
  shows "is_field (n + 2) (padded F)"
proof -
  have len: "length F = n" and rows: "\<forall>row \<in> set F. length row = n"
    using assms by (auto simp: is_field_def)
  have "length row = n + 2" if "row \<in> set (padded F)" for row
  proof -
    from that have "row \<in> set (map wrap1 F)"
      unfolding padded_def using set_wrap1 [of "map wrap1 F"] by blast
    then obtain r where "r \<in> set F" "row = wrap1 r" by auto
    moreover from this rows assms(2) have "r \<noteq> []" by auto
    ultimately show ?thesis using rows by (simp add: length_wrap1)
  qed
  moreover have "map wrap1 F \<noteq> []" using len assms(2) by auto
  then have "length (padded F) = n + 2"
    unfolding padded_def using len by (simp add: length_wrap1)
  ultimately show ?thesis by (simp add: is_field_def)
qed

lemma padded_nth:
  assumes "is_field n F" "r < n + 2" "c < n + 2" "0 < n"
  shows "padded F ! r ! c = F ! ((r + n - 1) mod n) ! ((c + n - 1) mod n)"
proof -
  have len: "length F = n" and rows: "\<forall>row \<in> set F. length row = n"
    using assms by (auto simp: is_field_def)
  let ?r = "(r + n - 1) mod n"
  have r: "?r < n" using assms(4) by simp
  have "map wrap1 F \<noteq> []" using len assms(4) by auto
  then have "padded F ! r = map wrap1 F ! ?r"
    unfolding padded_def using wrap1_nth [of "map wrap1 F" r] len assms by simp
  also have "\<dots> = wrap1 (F ! ?r)"
    using r len by simp
  finally have "padded F ! r ! c = wrap1 (F ! ?r) ! c" by simp
  moreover have lr: "length (F ! ?r) = n"
    using rows r len by simp
  moreover have "F ! ?r \<noteq> []"
    using lr assms(4) by auto
  ultimately show ?thesis
    using wrap1_nth [of "F ! ?r" c] assms by simp
qed

lemma wrap_pad_lift_padded: "wrap_pad (lift F) (Suc 0) = lift (padded F)"
  by (simp add: wrap_pad_lift padded_def)

lemma diffuse_lift:
  assumes "is_field n F"
  shows "conv2d_valid (wrap_pad (lift F) (Suc 0)) (ew1 (\<lambda>w. c * w) kernel) =
           lift (cells n (\<lambda>i j. lap9 c (padded F) i j))"
proof (cases "n = 0")
  case True
  then have "F = []" using assms by (simp add: is_field_def)
  then have "padded F = []" by (simp add: padded_def wrap1_def last_slice_def)
  then show ?thesis
    using True conv2d_valid_lift [of "[]" 0 0 c]
    by (simp add: wrap_pad_lift_padded cells_def)
next
  case False
  then have "is_field (n + 2) (padded F)"
    using padded_shape [OF assms] by simp
  then have "length (padded F) = n + 2" "\<forall>row \<in> set (padded F). length row = n + 2"
    by (auto simp: is_field_def)
  from conv2d_valid_lift [OF this, of c] show ?thesis
    by (simp add: wrap_pad_lift_padded cells_def)
qed

lemma input_a_lift: "is_field (nat (N_POINTS p)) a \<Longrightarrow> input_a p a = lift a"
  by (simp add: input_a_def reshape4_field)

lemma input_b_lift: "is_field (nat (N_POINTS p)) b \<Longrightarrow> input_b p b = lift b"
  by (simp add: input_b_def reshape4_field)

lemma diff_a_lift:
  "is_field (nat (N_POINTS p)) a \<Longrightarrow>
   diff_a p a = lift (cells (nat (N_POINTS p)) (\<lambda>i j. lap9 (DA p * TIME_STEP p) (padded a) i j))"
  by (simp add: diff_a_def kernel_a_def input_a_lift diffuse_lift)

lemma diff_b_lift:
  "is_field (nat (N_POINTS p)) b \<Longrightarrow>
   diff_b p b = lift (cells (nat (N_POINTS p)) (\<lambda>i j. lap9 (DB p * TIME_STEP p) (padded b) i j))"
  by (simp add: diff_b_def kernel_b_def input_b_lift diffuse_lift)

lemma react_a_cells:
  assumes "n = nat (N_POINTS p)"
  shows "react_a p (cells n fa) (cells n fb) =
     lift (cells n (\<lambda>i j. TIME_STEP p * (- fa i j * fb i j * fb i j + feed_f p * (1 - fa i j))))"
  unfolding assms
  by (simp add: react_a_def input_a_lift input_b_lift is_field_cells
      ew1_lift ew2_lift map_cells map2_cells)

lemma react_b_cells:
  assumes "n = nat (N_POINTS p)"
  shows "react_b p (cells n fa) (cells n fb) =
     lift (cells n (\<lambda>i j. TIME_STEP p * (fa i j * fb i j * fb i j - (kill_k p + feed_f p) * fb i j)))"
  unfolding assms
  by (simp add: react_b_def input_a_lift input_b_lift is_field_cells
      ew1_lift ew2_lift map_cells map2_cells)

lemma react_a_lift:
  assumes "is_field (nat (N_POINTS p)) a" "is_field (nat (N_POINTS p)) b"
  shows "react_a p a b = lift (cells (nat (N_POINTS p))
     (\<lambda>i j. TIME_STEP p * (- (a ! i ! j) * b ! i ! j * b ! i ! j + feed_f p * (1 - a ! i ! j))))"
proof -
  have a: "cells (nat (N_POINTS p)) (\<lambda>i j. a ! i ! j) = a"
    by (rule field_as_cells [OF assms(1), symmetric])
  have b: "cells (nat (N_POINTS p)) (\<lambda>i j. b ! i ! j) = b"
    by (rule field_as_cells [OF assms(2), symmetric])
  show ?thesis
    using react_a_cells [OF refl, of p "\<lambda>i j. a ! i ! j" "\<lambda>i j. b ! i ! j"]
    unfolding a b .
qed

lemma react_b_lift:
  assumes "is_field (nat (N_POINTS p)) a" "is_field (nat (N_POINTS p)) b"
  shows "react_b p a b = lift (cells (nat (N_POINTS p))
     (\<lambda>i j. TIME_STEP p * (a ! i ! j * b ! i ! j * b ! i ! j - (kill_k p + feed_f p) * b ! i ! j)))"
proof -
  have a: "cells (nat (N_POINTS p)) (\<lambda>i j. a ! i ! j) = a"
    by (rule field_as_cells [OF assms(1), symmetric])
  have b: "cells (nat (N_POINTS p)) (\<lambda>i j. b ! i ! j) = b"
    by (rule field_as_cells [OF assms(2), symmetric])
  show ?thesis
    using react_b_cells [OF refl, of p "\<lambda>i j. a ! i ! j" "\<lambda>i j. b ! i ! j"]
    unfolding a b .
qed

lemma lift_nth: "i < length F \<Longrightarrow> j < length (F ! i) \<Longrightarrow> lift F ! 0 ! i ! j ! 0 = F ! i ! j"
  by (simp add: lift_def)

lemma lift_cells_nth: "i < n \<Longrightarrow> j < n \<Longrightarrow> lift (cells n g) ! 0 ! i ! j ! 0 = g i j"
  by (simp add: lift_def cells_def)

lemma next_a_cells:
  assumes "is_field (nat (N_POINTS p)) a" "is_field (nat (N_POINTS p)) b"
  shows "next_a p a b = cells (nat (N_POINTS p))
     (\<lambda>i j. a ! i ! j + lap9 (DA p * TIME_STEP p) (padded a) i j
        + TIME_STEP p * (- (a ! i ! j) * b ! i ! j * b ! i ! j + feed_f p * (1 - a ! i ! j)))"
proof -
  let ?n = "nat (N_POINTS p)"
  have a: "lift a = lift (cells ?n (\<lambda>i j. a ! i ! j))"
    using field_as_cells [OF assms(1)] by simp
  show ?thesis
    unfolding next_a_def input_a_lift [OF assms(1)] diff_a_lift [OF assms(1)]
      react_a_lift [OF assms] a ew2_lift map2_cells
    by (rule reshape2_lift [OF is_field_cells])
qed

lemma next_b_cells:
  assumes "is_field (nat (N_POINTS p)) a" "is_field (nat (N_POINTS p)) b"
  shows "next_b p a b = cells (nat (N_POINTS p))
     (\<lambda>i j. b ! i ! j + lap9 (DB p * TIME_STEP p) (padded b) i j
        + TIME_STEP p * (a ! i ! j * b ! i ! j * b ! i ! j - (kill_k p + feed_f p) * b ! i ! j))"
proof -
  let ?n = "nat (N_POINTS p)"
  have b: "lift b = lift (cells ?n (\<lambda>i j. b ! i ! j))"
    using field_as_cells [OF assms(2)] by simp
  show ?thesis
    unfolding next_b_def input_b_lift [OF assms(2)] diff_b_lift [OF assms(2)]
      react_b_lift [OF assms] b ew2_lift map2_cells
    by (rule reshape2_lift [OF is_field_cells])
qed

lemma sess_run_ok:
  assumes "shape_ok p s"
  shows "sess_run p s = Inr (next_a p (fst s) (snd s), next_b p (fst s) (snd s))"
    and "shape_ok p (next_a p (fst s) (snd s), next_b p (fst s) (snd s))"
  using assms
  by (simp_all add: sess_run_def shape_ok_def split_def next_a_cells next_b_cells is_field_cells)

lemma slice_index_lower: "0 \<le> s \<Longrightarrow> i < n \<Longrightarrow> slice_index n s \<le> i \<longleftrightarrow> s \<le> int i"
  by (auto simp: slice_index_def)

lemma slice_index_upper: "0 \<le> s \<Longrightarrow> i < n \<Longrightarrow> i < slice_index n s \<longleftrightarrow> int i < s"
  by (auto simp: slice_index_def)

lemma assign_block_field:
  assumes "is_field n b"
  shows "assign_block b r0 r1 c0 c1 v =
     cells n (\<lambda>i j. if slice_index n r0 \<le> i \<and> i < slice_index n r1 \<and>
                        slice_index n c0 \<le> j \<and> j < slice_index n c1 then v else b ! i ! j)"
proof -
  have len: "length b = n" and rows: "\<And>i. i < n \<Longrightarrow> length (b ! i) = n"
    using assms by (auto simp: is_field_def)
  show ?thesis
    unfolding assign_block_def cells_def len
    by (auto simp: rows intro!: nth_equalityI)
qed

lemma replicate_cells: "replicate n (replicate n v) = cells n (\<lambda>i j. v)"
  by (simp add: cells_def map_replicate_trivial)

lemma cells_cong:
  "(\<And>i j. i < n \<Longrightarrow> j < n \<Longrightarrow> g i j = h i j) \<Longrightarrow> cells n g = cells n h"
  by (simp add: cells_def)

lemma initialize_cells:
  assumes "0 \<le> N_POINTS p"
  shows "initialize p = Inr (cells (nat (N_POINTS p)) (\<lambda>i j. 1),
     cells (nat (N_POINTS p)) (\<lambda>i j.
       if slice_index (nat (N_POINTS p)) (SEED_START p) \<le> i \<and>
          i < slice_index (nat (N_POINTS p)) (SEED_START p + SEED_SIZE p) \<and>
          slice_index (nat (N_POINTS p)) (SEED_START p) \<le> j \<and>
          j < slice_index (nat (N_POINTS p)) (SEED_START p + SEED_SIZE p) then 1 else 0))"
proof -
  let ?n = "nat (N_POINTS p)"
  have "assign_block (cells ?n (\<lambda>i j. 0)) r0 r1 c0 c1 (1::real) =
     cells ?n (\<lambda>i j. if slice_index ?n r0 \<le> i \<and> i < slice_index ?n r1 \<and>
                         slice_index ?n c0 \<le> j \<and> j < slice_index ?n c1 then 1 else 0)"
    for r0 r1 c0 c1
    unfolding assign_block_field [OF is_field_cells]
    by (rule cells_cong) (simp add: cells_nth)
  then show ?thesis
    using assms by (simp add: initialize_def Let_def replicate_cells)
qed

lemma loop_upto:
  assumes nz: "N_STEPS p \<noteq> 0"
  shows "0 \<le> l \<Longrightarrow> shape_ok p s \<Longrightarrow> steps p (nat l) s0 = Inr s \<Longrightarrow>
     \<exists>ev'. loop p [l..u] s ev = Inr (ev @ ev') \<and>
       map Inr ev' = map (\<lambda>i. steps p (nat i) s0) (filter (\<lambda>i. i mod N_STEPS p = 0) [l + 1..u + 1])"
proof (induction l u arbitrary: s ev rule: upto.induct)
  case (1 l u)
  show ?case
  proof (cases "l \<le> u")
    case False
    then show ?thesis by simp
  next
    case True
    define s' where "s' = (next_a p (fst s) (snd s), next_b p (fst s) (snd s))"
    have run: "sess_run p s = Inr s'" and ok: "shape_ok p s'"
      using sess_run_ok [OF "1.prems"(2)] by (simp_all add: s'_def)
    have "nat (l + 1) = Suc (nat l)" using "1.prems"(1) by simp
    then have st: "steps p (nat (l + 1)) s0 = Inr s'"
      using "1.prems"(3) run by simp
    define ev1 where "ev1 = (if (l + 1) mod N_STEPS p = 0 then ev @ [s'] else ev)"
    from "1.IH" [OF True _ ok st, of ev1] "1.prems"(1)
    obtain ev2 where l2: "loop p [l + 1..u] s' ev1 = Inr (ev1 @ ev2)"
      and m2: "map Inr ev2 = map (\<lambda>i. steps p (nat i) s0)
                 (filter (\<lambda>i. i mod N_STEPS p = 0) [l + 1 + 1..u + 1])"
      by auto
    have up: "[l..u] = l # [l + 1..u]" "[l + 1..u + 1] = (l + 1) # [l + 1 + 1..u + 1]"
      using True by (simp_all add: upto_rec1)
    have "loop p [l..u] s ev = Inr (ev1 @ ev2)"
      unfolding up using run nz l2 by (simp add: ev1_def)
    moreover have "\<exists>ev'. ev1 @ ev2 = ev @ ev' \<and>
       map Inr ev' = map (\<lambda>i. steps p (nat i) s0) (filter (\<lambda>i. i mod N_STEPS p = 0) [l + 1..u + 1])"
      unfolding up using m2 st by (simp add: ev1_def)
    ultimately show ?thesis by auto
  qed
qed

lemma div_step_hit:
  fixes N T :: int
  assumes "0 < N" "(T + 1) mod N = 0"
  shows "(T + 1) div N = T div N + 1" and "(T div N + 1) * N = T + 1"
proof -
  define q where "q = (T + 1) div N"
  have eq: "T + 1 = N * q"
    using assms(2) by (auto simp: q_def)
  then have "T = N * (q - 1) + (N - 1)"
    by (simp add: algebra_simps)
  then have "T div N = q - 1"
    using assms(1) by (intro int_div_pos_eq [where r = "N - 1"]) auto
  then have d: "T div N + 1 = (T + 1) div N"
    unfolding q_def by simp
  then show "(T + 1) div N = T div N + 1"
    by simp
  have "N dvd T + 1"
    using assms(2) by (simp add: dvd_eq_mod_eq_0)
  then show "(T div N + 1) * N = T + 1"
    unfolding d by simp
qed

lemma div_step_miss:
  fixes N T :: int
  assumes "0 < N" "(T + 1) mod N \<noteq> 0"
  shows "(T + 1) div N = T div N"
proof -
  have r: "0 \<le> T mod N" "T mod N < N"
    using assms(1) by simp_all
  have T1: "T + 1 = N * (T div N) + (T mod N + 1)"
    by simp
  have "T mod N + 1 \<noteq> N"
  proof
    assume "T mod N + 1 = N"
    with T1 have "T + 1 = N * (T div N) + N"
      by simp
    also have "\<dots> = N * (T div N + 1)"
      by (simp add: algebra_simps)
    finally have "(T + 1) mod N = 0"
      by simp
    then show False using assms(2) by simp
  qed
  then have "T mod N + 1 < N" using r by simp
  with T1 r show ?thesis
    by (intro int_div_pos_eq [where r = "T mod N + 1"]) auto
qed

lemma filter_multiples:
  fixes N :: int
  assumes "0 < N"
  shows "0 \<le> T \<Longrightarrow> filter (\<lambda>i. i mod N = 0) [1..T] = map (\<lambda>k. k * N) [1..T div N]"
proof (induction T rule: int_ge_induct)
  case base
  then show ?case using assms by simp
next
  case (step T)
  have up: "[1..T + 1] = [1..T] @ [T + 1]"
    using step.hyps by (simp add: upto_rec2)
  show ?case
  proof (cases "(T + 1) mod N = 0")
    case True
    have "0 \<le> T div N"
      using assms step.hyps by (simp add: pos_imp_zdiv_nonneg_iff)
    then have "[1..T div N + 1] = [1..T div N] @ [T div N + 1]"
      by (simp add: upto_rec2)
    then show ?thesis
      unfolding up using True step.IH div_step_hit [OF assms True] by simp
  next
    case False
    then show ?thesis
      unfolding up using step.IH div_step_miss [OF assms False] by simp
  qed
qed

lemma wrap_pad_input_nth:
  assumes "is_field (nat (N_POINTS p)) a" "0 < N_POINTS p"
    "r < nat (N_POINTS p) + 2" "c < nat (N_POINTS p) + 2"
  shows "wrap_pad (input_a p a) 1 ! 0 ! r ! c ! 0 =
           a ! ((r + nat (N_POINTS p) - 1) mod nat (N_POINTS p))
             ! ((c + nat (N_POINTS p) - 1) mod nat (N_POINTS p))"
proof -
  let ?n = "nat (N_POINTS p)"
  have n: "0 < ?n" using assms(2) by simp
  have sh: "is_field (?n + 2) (padded a)"
    using padded_shape [OF assms(1) n] .
  then have "r < length (padded a)" "c < length (padded a ! r)"
    using assms(3,4) by (auto simp: is_field_def)
  then have "lift (padded a) ! 0 ! r ! c ! 0 = padded a ! r ! c"
    by (rule lift_nth)
  then show ?thesis
    using padded_nth [OF assms(1) assms(3) assms(4) n]
    by (simp add: input_a_lift [OF assms(1)] wrap_pad_lift_padded)
qed

section \<open>Periodic padding\<close>

text \<open>
  Claim C10. For every \<open>N\<close> by \<open>N\<close> field and every cell \<open>(i, j)\<close> with
  \<open>i, j < N\<close>, the padded tensor holds the field's value \<open>field[i, j]\<close> at the
  interior position \<open>(i + 1, j + 1)\<close>: padding adds the border and leaves every
  original cell in place.
\<close>

theorem wrap_pad_interior:
  assumes "is_field (nat (N_POINTS p)) a" "i < nat (N_POINTS p)" "j < nat (N_POINTS p)"
  shows "wrap_pad (input_a p a) 1 ! 0 ! (i + 1) ! (j + 1) ! 0 = a ! i ! j"
proof -
  have "0 < N_POINTS p" using assms(2) by simp
  from wrap_pad_input_nth [OF assms(1) this, of "i + 1" "j + 1"] assms(2,3)
  show ?thesis by simp
qed

theorem wrap_pad_interior_witness:
  "is_field (nat (N_POINTS (default_params\<lparr>N_POINTS := 2\<rparr>))) [[1, 2], [3, 4 :: real]] \<and>
   wrap_pad (input_a (default_params\<lparr>N_POINTS := 2\<rparr>) [[1, 2], [3, 4]]) 1 ! 0 ! (0 + 1) ! (1 + 1) ! 0 = 2"
  using wrap_pad_interior [of "default_params\<lparr>N_POINTS := 2\<rparr>" "[[1, 2], [3, 4]]" 0 1]
  by (simp add: is_field_def)

text \<open>
  Claim C2. For every \<open>N\<close> by \<open>N\<close> field and every \<open>h\<close> in \<open>[1, N]\<close>: row 0 of the
  padded tensor is the field's last row and row \<open>N + 1\<close> its first row
  (\<open>wrap[0, h] = field[N - 1, h - 1]\<close>, \<open>wrap[N + 1, h] = field[0, h - 1]\<close>), column 0 is the
  field's last column and column \<open>N + 1\<close> its first column, and the corner \<open>wrap[0, 0]\<close>
  is \<open>field[N - 1, N - 1]\<close>.
\<close>

theorem wrap_pad_border:
  assumes "is_field (nat (N_POINTS p)) a" "1 \<le> h" "h \<le> nat (N_POINTS p)"
  shows "wrap_pad (input_a p a) 1 ! 0 ! 0 ! h ! 0 = a ! (nat (N_POINTS p) - 1) ! (h - 1)
       \<and> wrap_pad (input_a p a) 1 ! 0 ! (nat (N_POINTS p) + 1) ! h ! 0 = a ! 0 ! (h - 1)
       \<and> wrap_pad (input_a p a) 1 ! 0 ! h ! 0 ! 0 = a ! (h - 1) ! (nat (N_POINTS p) - 1)
       \<and> wrap_pad (input_a p a) 1 ! 0 ! h ! (nat (N_POINTS p) + 1) ! 0 = a ! (h - 1) ! 0
       \<and> wrap_pad (input_a p a) 1 ! 0 ! 0 ! 0 ! 0 = a ! (nat (N_POINTS p) - 1) ! (nat (N_POINTS p) - 1)"
proof -
  let ?n = "nat (N_POINTS p)"
  have pos: "0 < N_POINTS p" using assms(2,3) by simp
  note nth = wrap_pad_input_nth [OF assms(1) pos]
  have h: "(h + ?n - 1) mod ?n = h - 1"
    using assms(2,3) by (simp add: mod_if)
  have z: "(0 + ?n - 1) mod ?n = ?n - 1"
    using pos by simp
  have l: "(?n + 1 + ?n - 1) mod ?n = 0"
    by simp
  show ?thesis
    using nth [of 0 h] nth [of "?n + 1" h] nth [of h 0] nth [of h "?n + 1"] nth [of 0 0]
      assms(2,3)
    unfolding h z l by simp
qed

theorem wrap_pad_border_witness:
  "is_field (nat (N_POINTS (default_params\<lparr>N_POINTS := 2\<rparr>))) [[1, 2], [3, 4 :: real]] \<and>
   wrap_pad (input_a (default_params\<lparr>N_POINTS := 2\<rparr>) [[1, 2], [3, 4]]) 1 ! 0 ! 0 ! 1 ! 0 = 3 \<and>
   wrap_pad (input_a (default_params\<lparr>N_POINTS := 2\<rparr>) [[1, 2], [3, 4]]) 1 ! 0 ! 0 ! 0 ! 0 = 4"
  using wrap_pad_border [of "default_params\<lparr>N_POINTS := 2\<rparr>" "[[1, 2], [3, 4]]" 1]
  by (simp add: is_field_def)

section \<open>Reaction and the update of one step\<close>

text \<open>
  Claim C5. For \<open>N\<close> by \<open>N\<close> fields \<open>A\<close>, \<open>B\<close> and every cell \<open>(i, j)\<close>, the reaction nodes
  hold \<open>dt * (- A[i,j] * B[i,j]^2 + f * (1 - A[i,j]))\<close> and
  \<open>dt * (A[i,j] * B[i,j]^2 - (k + f) * B[i,j])\<close>: each cell depends on the fed arrays at
  that cell only. The arrays are the ones fed to the step.
\<close>

theorem reaction_pointwise:
  assumes "is_field (nat (N_POINTS p)) a" "is_field (nat (N_POINTS p)) b"
    "i < nat (N_POINTS p)" "j < nat (N_POINTS p)"
  shows "react_a p a b ! 0 ! i ! j ! 0 =
           TIME_STEP p * (- (a ! i ! j) * (b ! i ! j)\<^sup>2 + feed_f p * (1 - a ! i ! j))
       \<and> react_b p a b ! 0 ! i ! j ! 0 =
           TIME_STEP p * (a ! i ! j * (b ! i ! j)\<^sup>2 - (kill_k p + feed_f p) * b ! i ! j)"
  unfolding react_a_lift [OF assms(1,2)] react_b_lift [OF assms(1,2)]
  using assms(3,4) by (simp add: lift_cells_nth power2_eq_square)

theorem reaction_pointwise_witness:
  "is_field (nat (N_POINTS (default_params\<lparr>N_POINTS := 2\<rparr>))) [[1, 2], [3, 4 :: real]] \<and>
   is_field (nat (N_POINTS (default_params\<lparr>N_POINTS := 2\<rparr>))) [[0, 1], [2, 1 :: real]] \<and>
   react_a (default_params\<lparr>N_POINTS := 2\<rparr>) [[1, 2], [3, 4]] [[0, 1], [2, 1]] ! 0 ! 1 ! 0 ! 0
     = - 12.11 \<and>
   react_b (default_params\<lparr>N_POINTS := 2\<rparr>) [[1, 2], [3, 4]] [[0, 1], [2, 1]] ! 0 ! 1 ! 0 ! 0
     = 11.766"
  using reaction_pointwise [of "default_params\<lparr>N_POINTS := 2\<rparr>" "[[1, 2], [3, 4]]"
      "[[0, 1], [2, 1]]" 1 0]
  by (simp add: is_field_def default_params_def)



text \<open>
  Claim C9. For \<open>N\<close> by \<open>N\<close> fields with \<open>N\<close> positive, one evaluation returns two
  \<open>N\<close> by \<open>N\<close> fields; the padded input of the convolution is \<open>(N + 2)\<close> by \<open>(N + 2)\<close>
  and the diffusion term is \<open>N\<close> by \<open>N\<close> again.
\<close>

theorem step_shape:
  assumes "is_field (nat (N_POINTS p)) a" "is_field (nat (N_POINTS p)) b" "0 < N_POINTS p"
  shows "(\<exists>a' b'. sess_run p (a, b) = Inr (a', b')
           \<and> is_field (nat (N_POINTS p)) a' \<and> is_field (nat (N_POINTS p)) b')
       \<and> (\<exists>P D. wrap_pad (input_a p a) 1 = lift P \<and> is_field (nat (N_POINTS p) + 2) P
           \<and> diff_a p a = lift D \<and> is_field (nat (N_POINTS p)) D)
       \<and> (\<exists>P D. wrap_pad (input_b p b) 1 = lift P \<and> is_field (nat (N_POINTS p) + 2) P
           \<and> diff_b p b = lift D \<and> is_field (nat (N_POINTS p)) D)"
proof -
  have n: "0 < nat (N_POINTS p)" using assms(3) by simp
  have "sess_run p (a, b) = Inr (next_a p a b, next_b p a b)"
    using assms(1,2) by (simp add: sess_run_def)
  moreover have "is_field (nat (N_POINTS p)) (next_a p a b)"
    "is_field (nat (N_POINTS p)) (next_b p a b)"
    by (simp_all add: next_a_cells [OF assms(1,2)] next_b_cells [OF assms(1,2)] is_field_cells)
  ultimately have step: "\<exists>a' b'. sess_run p (a, b) = Inr (a', b')
           \<and> is_field (nat (N_POINTS p)) a' \<and> is_field (nat (N_POINTS p)) b'"
    by blast
  have "wrap_pad (input_a p a) 1 = lift (padded a)"
    by (simp add: input_a_lift [OF assms(1)] wrap_pad_lift_padded)
  with padded_shape [OF assms(1) n] diff_a_lift [OF assms(1)] is_field_cells
  have da: "\<exists>P D. wrap_pad (input_a p a) 1 = lift P \<and> is_field (nat (N_POINTS p) + 2) P
           \<and> diff_a p a = lift D \<and> is_field (nat (N_POINTS p)) D"
    by blast
  have "wrap_pad (input_b p b) 1 = lift (padded b)"
    by (simp add: input_b_lift [OF assms(2)] wrap_pad_lift_padded)
  with padded_shape [OF assms(2) n] diff_b_lift [OF assms(2)] is_field_cells
  have db: "\<exists>P D. wrap_pad (input_b p b) 1 = lift P \<and> is_field (nat (N_POINTS p) + 2) P
           \<and> diff_b p b = lift D \<and> is_field (nat (N_POINTS p)) D"
    by blast
  from step da db show ?thesis by blast
qed

theorem step_shape_witness:
  "is_field (nat (N_POINTS (default_params\<lparr>N_POINTS := 2\<rparr>))) [[1, 2], [3, 4 :: real]] \<and>
   is_field (nat (N_POINTS (default_params\<lparr>N_POINTS := 2\<rparr>))) [[0, 1], [2, 1 :: real]] \<and>
   0 < N_POINTS (default_params\<lparr>N_POINTS := 2\<rparr>) \<and>
   (\<exists>a' b'. sess_run (default_params\<lparr>N_POINTS := 2\<rparr>) ([[1, 2], [3, 4]], [[0, 1], [2, 1]])
       = Inr (a', b') \<and> is_field 2 a' \<and> is_field 2 b')"
  using step_shape [of "default_params\<lparr>N_POINTS := 2\<rparr>" "[[1, 2], [3, 4]]" "[[0, 1], [2, 1]]"]
  by (simp add: is_field_def)

section \<open>Diffusion\<close>

lemma lap9_zero:
  assumes "\<And>di dj. di < 3 \<Longrightarrow> dj < 3 \<Longrightarrow> G ! (i + di) ! (j + dj) = 0"
  shows "lap9 c G i j = 0"
  using assms [of 0 0] assms [of 0 1] assms [of 0 2] assms [of 1 0] assms [of 1 1]
    assms [of 1 2] assms [of 2 0] assms [of 2 1] assms [of 2 2]
  by (simp add: lap9_def)

lemma lap9_padded_zero:
  assumes F: "is_field n F" and ij: "i < n" "j < n"
    and z: "\<And>di dj. di < 3 \<Longrightarrow> dj < 3 \<Longrightarrow>
              F ! ((i + di + n - 1) mod n) ! ((j + dj + n - 1) mod n) = 0"
  shows "lap9 c (padded F) i j = 0"
proof (rule lap9_zero)
  fix di dj :: nat assume d: "di < 3" "dj < 3"
  have n: "0 < n" using ij by simp
  have "padded F ! (i + di) ! (j + dj)
      = F ! ((i + di + n - 1) mod n) ! ((j + dj + n - 1) mod n)"
    using ij d by (intro padded_nth [OF F _ _ n]) simp_all
  then show "padded F ! (i + di) ! (j + dj) = 0"
    using z [OF d] by simp
qed





text \<open>
  One step from the notebook's starting conditions (\<open>N = 400\<close>, seed patch
  \<open>[100, 105)\<close> squared), at a cell outside the dilated patch \<open>[99, 105]\<close> squared. There
  \<open>B\<close> and its eight periodic neighbours are 0, so every product of the convolution and
  of the reaction is 0 and the new \<open>B\<close> is 0, with or without rounding. The new \<open>A\<close> is
  \<open>1 + diff_a + 0\<close> with \<open>diff_a\<close> the kernel applied to nine cells equal to 1: whether
  that is the \<^verbatim>\<open>float32\<close> number 1.0 depends on the rounding of the nine products, of
  their sum in the order \<^verbatim>\<open>conv2d\<close> accumulates them, and of the final addition.
  These lie outside the arithmetic of this embedding, so only the half about \<open>B\<close> is
  stated here.
\<close>

lemma quiet_cell_b:
  assumes a: "is_field (nat (N_POINTS p)) a" and b: "is_field (nat (N_POINTS p)) b"
    and ij: "i < nat (N_POINTS p)" "j < nat (N_POINTS p)"
    and B: "\<And>di dj. di < 3 \<Longrightarrow> dj < 3 \<Longrightarrow>
              b ! ((i + di + nat (N_POINTS p) - 1) mod nat (N_POINTS p))
                ! ((j + dj + nat (N_POINTS p) - 1) mod nat (N_POINTS p)) = 0"
  shows "next_b p a b ! i ! j = 0"
proof -
  have b0: "b ! i ! j = 0" using B [of 1 1] ij by simp
  have lb: "lap9 (DB p * TIME_STEP p) (padded b) i j = 0"
    using lap9_padded_zero [OF b ij] B by blast
  show ?thesis
    unfolding next_b_cells [OF a b] using ij by (simp add: cells_nth b0 lb)
qed

lemma torus_neighbour:
  fixes i di :: nat
  assumes "i < 400" "di < 3"
  shows "(i + di + 400 - 1) mod 400 =
           (if i + di = 0 then 399 else if i + di = 401 then 0 else i + di - 1)"
proof (cases "i + di = 0")
  case True
  then show ?thesis by simp
next
  case False
  then have "i + di + 400 - 1 = (i + di - 1) + 400" by simp
  then have "(i + di + 400 - 1) mod 400 = (i + di - 1) mod 400"
    by (simp only: mod_add_self2)
  then show ?thesis
    using False assms by (simp add: mod_if)
qed

lemma far:
  fixes i di :: nat
  assumes "i < 400" "di < 3" "\<not> (99 \<le> i \<and> i \<le> 105)"
  shows "\<not> (100 \<le> (i + di + 400 - 1) mod 400 \<and> (i + di + 400 - 1) mod 400 < 105)"
  unfolding torus_neighbour [OF assms(1,2)] using assms by auto

lemma default_initial_state:
  "initialize default_params =
     Inr (cells 400 (\<lambda>i j. 1),
          cells 400 (\<lambda>i j. if 100 \<le> i \<and> i < 105 \<and> 100 \<le> j \<and> j < 105 then 1 else 0))"
proof -
  have "0 \<le> N_POINTS default_params"
    by (simp add: default_params_def)
  from initialize_cells [OF this] show ?thesis
    by (simp add: default_params_def slice_index_def)
qed

lemma far_cell_new_b:
  assumes "i < 400" "j < 400" "\<not> (99 \<le> i \<and> i \<le> 105 \<and> 99 \<le> j \<and> j \<le> 105)"
  shows "\<exists>a b a' b'. initialize default_params = Inr (a, b)
           \<and> sess_run default_params (a, b) = Inr (a', b') \<and> b' ! i ! j = 0"
proof -
  define a :: field where "a = cells 400 (\<lambda>i j. 1)"
  define b :: field where
    "b = cells 400 (\<lambda>i j. if 100 \<le> i \<and> i < 105 \<and> 100 \<le> j \<and> j < 105 then 1 else 0)"
  have n: "nat (N_POINTS default_params) = 400"
    by (simp add: default_params_def)
  have fa: "is_field (nat (N_POINTS default_params)) a"
    and fb: "is_field (nat (N_POINTS default_params)) b"
    unfolding n a_def b_def by (rule is_field_cells)+
  have ij: "i < nat (N_POINTS default_params)" "j < nat (N_POINTS default_params)"
    using assms(1,2) by (simp_all add: n)
  have init: "initialize default_params = Inr (a, b)"
    by (simp add: default_initial_state a_def b_def)
  have run: "sess_run default_params (a, b) =
      Inr (next_a default_params a b, next_b default_params a b)"
    using fa fb by (simp add: sess_run_def)
  have B: "b ! ((i + di + nat (N_POINTS default_params) - 1) mod nat (N_POINTS default_params))
             ! ((j + dj + nat (N_POINTS default_params) - 1) mod nat (N_POINTS default_params)) = 0"
    if "di < 3" "dj < 3" for di dj
  proof -
    have "\<not> (100 \<le> (i + di + 400 - 1) mod 400 \<and> (i + di + 400 - 1) mod 400 < 105 \<and>
             100 \<le> (j + dj + 400 - 1) mod 400 \<and> (j + dj + 400 - 1) mod 400 < 105)"
      using far [OF assms(1) that(1)] far [OF assms(2) that(2)] assms(3) by blast
    then show ?thesis
      unfolding n b_def by (simp add: cells_nth)
  qed
  from quiet_cell_b [OF fa fb ij B]
  have "next_b default_params a b ! i ! j = 0" .
  with init run show ?thesis by blast
qed

section \<open>Starting conditions\<close>

text \<open>
  Claim C4, as the code has it. The starting conditions never fail on account of the seed
  patch: for a non-negative grid size and non-negative \<open>SEED_START\<close> and \<open>SEED_SIZE\<close>
  (also when \<open>SEED_START + SEED_SIZE > N\<close>) they are computed, \<open>A\<close> is 1 everywhere and
  \<open>B\<close> is 0 except on the cells of the block \<open>[SEED_START, SEED_START + SEED_SIZE)\<close>
  squared that lie inside the grid, where it is 1; when the block fits the grid that is
  the whole block. For a positive grid size the run goes on into the loop from this state.
\<close>

theorem initialize_seed_block:
  assumes "0 \<le> N_POINTS p" "0 \<le> SEED_START p" "0 \<le> SEED_SIZE p"
  shows "\<exists>a b. initialize p = Inr (a, b)
           \<and> is_field (nat (N_POINTS p)) a \<and> is_field (nat (N_POINTS p)) b
           \<and> (\<forall>i < nat (N_POINTS p). \<forall>j < nat (N_POINTS p).
                 a ! i ! j = 1 \<and>
                 b ! i ! j =
                   (if SEED_START p \<le> int i \<and> int i < SEED_START p + SEED_SIZE p \<and>
                       SEED_START p \<le> int j \<and> int j < SEED_START p + SEED_SIZE p
                    then 1 else 0))
           \<and> (0 < N_POINTS p \<longrightarrow> run p = loop p (range_py (N_TIMES p)) (a, b) [(a, b)])"
proof -
  let ?n = "nat (N_POINTS p)"
  have nn: "0 \<le> SEED_START p + SEED_SIZE p"
    using assms(2,3) by simp
  define a :: field where "a = cells ?n (\<lambda>i j. 1)"
  define b :: field where "b = cells ?n (\<lambda>i j.
       if slice_index ?n (SEED_START p) \<le> i \<and> i < slice_index ?n (SEED_START p + SEED_SIZE p) \<and>
          slice_index ?n (SEED_START p) \<le> j \<and> j < slice_index ?n (SEED_START p + SEED_SIZE p)
       then 1 else 0)"
  have init: "initialize p = Inr (a, b)"
    unfolding a_def b_def by (rule initialize_cells [OF assms(1)])
  have shape: "is_field ?n a" "is_field ?n b"
    unfolding a_def b_def by (rule is_field_cells)+
  have cell: "a ! i ! j = 1 \<and>
      b ! i ! j = (if SEED_START p \<le> int i \<and> int i < SEED_START p + SEED_SIZE p \<and>
                      SEED_START p \<le> int j \<and> int j < SEED_START p + SEED_SIZE p
                   then 1 else 0)" if "i < ?n" "j < ?n" for i j
    unfolding a_def b_def using that
    by (simp add: cells_nth slice_index_lower [OF assms(2)] slice_index_upper [OF nn])
  have "run p = loop p (range_py (N_TIMES p)) (a, b) [(a, b)]" if "0 < N_POINTS p"
    using that by (simp add: run_def init build_graph_def)
  with init shape cell show ?thesis by blast
qed

theorem initialize_seed_block_witness:
  "\<exists>a b. initialize (default_params\<lparr>N_POINTS := 2, SEED_START := 1, SEED_SIZE := 2\<rparr>) = Inr (a, b)
     \<and> a ! 1 ! 1 = 1 \<and> b ! 1 ! 1 = 1 \<and> b ! 0 ! 1 = 0"
  using initialize_seed_block [of "default_params\<lparr>N_POINTS := 2, SEED_START := 1, SEED_SIZE := 2\<rparr>"]
  by (auto simp: )

text \<open>
  The claim as stated fails: with \<open>N = 2\<close>, \<open>SEED_START = 1\<close>, \<open>SEED_SIZE = 2\<close> the patch
  does not fit (\<open>1 + 2 > 2\<close>), yet the starting conditions are computed, with the patch
  clipped to the single cell \<open>(1, 1)\<close>, and a run of two steps ends without an error.
\<close>

theorem initialize_oversized_seed_counterexample:
  "N_POINTS (default_params\<lparr>N_POINTS := 2, SEED_START := 1, SEED_SIZE := 2\<rparr>)
     < SEED_START (default_params\<lparr>N_POINTS := 2, SEED_START := 1, SEED_SIZE := 2\<rparr>)
       + SEED_SIZE (default_params\<lparr>N_POINTS := 2, SEED_START := 1, SEED_SIZE := 2\<rparr>)
   \<and> initialize (default_params\<lparr>N_POINTS := 2, SEED_START := 1, SEED_SIZE := 2\<rparr>)
       = Inr ([[1, 1], [1, 1]], [[0, 0], [0, 1]])
   \<and> \<not> isl (run (default_params\<lparr>N_POINTS := 2, SEED_START := 1, SEED_SIZE := 2,
                                 N_TIMES := 2, N_STEPS := 1\<rparr>))"
  by code_simp

section \<open>The loop and the sampled record\<close>

lemma loop_from_start:
  assumes "N_STEPS p \<noteq> 0" "shape_ok p s0"
  shows "\<exists>ev. loop p (range_py (N_TIMES p)) s0 [s0] = Inr ev \<and>
           map Inr ev = Inr s0 # map (\<lambda>i. steps p (nat i) s0)
                                   (filter (\<lambda>i. i mod N_STEPS p = 0) [1..N_TIMES p])"
proof -
  have "steps p (nat 0) s0 = Inr s0" by simp
  from loop_upto [OF assms(1) _ assms(2) this, of "N_TIMES p - 1" "[s0]"]
  obtain ev' where "loop p [0..N_TIMES p - 1] s0 [s0] = Inr ([s0] @ ev')"
    and "map Inr ev' = map (\<lambda>i. steps p (nat i) s0)
                         (filter (\<lambda>i. i mod N_STEPS p = 0) [0 + 1..N_TIMES p - 1 + 1])"
    by auto
  then show ?thesis
    by (simp add: range_py_def)
qed

text \<open>
  Claim C3. For a positive grid size, a positive sampling interval \<open>N_STEPS\<close> and
  \<open>N_TIMES \<ge> 0\<close> the run ends with a record of exactly \<open>1 + N_TIMES div N_STEPS\<close>
  entries; entry 0 is the initial state and entry \<open>k \<ge> 1\<close> the state after exactly
  \<open>k * N_STEPS\<close> steps. The entries after the first are, in order and each once, the
  states after the iterations \<open>i\<close> of \<open>1, \<dots>, N_TIMES\<close> with \<open>i mod N_STEPS = 0\<close>: an
  iteration is retained if and only if its 1-based index is a multiple of \<open>N_STEPS\<close>.
\<close>

theorem sampling_cadence:
  assumes "0 < N_POINTS p" "0 < N_STEPS p" "0 \<le> N_TIMES p"
  shows "\<exists>s0 ev. initialize p = Inr s0 \<and> run p = Inr ev
           \<and> int (length ev) = 1 + N_TIMES p div N_STEPS p
           \<and> ev ! 0 = s0
           \<and> (\<forall>k. 1 \<le> k \<and> int k \<le> N_TIMES p div N_STEPS p \<longrightarrow>
                 steps p (k * nat (N_STEPS p)) s0 = Inr (ev ! k))
           \<and> map Inr ev = Inr s0 # map (\<lambda>i. steps p (nat i) s0)
                                     (filter (\<lambda>i. i mod N_STEPS p = 0) [1..N_TIMES p])"
proof -
  let ?N = "N_STEPS p" and ?T = "N_TIMES p"
  let ?K = "?T div ?N"
  obtain s0 where init: "initialize p = Inr s0" and ok: "shape_ok p s0"
    using initialize_cells [of p] assms(1) by (simp add: shape_ok_def is_field_cells)
  have graph: "build_graph p = Inr ()"
    using assms(1) by (simp add: build_graph_def)
  from loop_from_start [OF _ ok] assms(2)
  obtain ev where lp: "loop p (range_py ?T) s0 [s0] = Inr ev"
    and ev: "map Inr ev = Inr s0 # map (\<lambda>i. steps p (nat i) s0)
                                    (filter (\<lambda>i. i mod ?N = 0) [1..?T])"
    by auto
  have run: "run p = Inr ev"
    by (simp add: run_def init graph lp)
  have K: "0 \<le> ?K"
    using assms(2,3) by (simp add: pos_imp_zdiv_nonneg_iff)
  have ev': "map Inr ev = Inr s0 # map (\<lambda>k. steps p (nat (k * ?N)) s0) [1..?K]"
    unfolding ev filter_multiples [OF assms(2,3)] by (simp add: o_def)
  have "length (map Inr ev :: (error + state) list) = 1 + nat ?K"
    unfolding ev' by simp
  then have len: "int (length ev) = 1 + ?K"
    using K by simp
  have zero: "ev ! 0 = s0"
  proof -
    have "(map Inr ev :: (error + state) list) ! 0 = Inr s0"
      unfolding ev' by simp
    moreover have "ev \<noteq> []" using len K by auto
    ultimately show ?thesis by simp
  qed
  have entry: "steps p (k * nat ?N) s0 = Inr (ev ! k)" if "1 \<le> k" "int k \<le> ?K" for k
  proof -
    have k: "k < length ev" using len that by simp
    define k' where "k' = k - 1"
    have k': "k = Suc k'" using that(1) by (simp add: k'_def)
    have "1 + int k' \<le> ?K" using that(2) k' by simp
    then have up: "[1..?K] ! k' = 1 + int k'"
      by (rule nth_upto)
    have "k' < length [1..?K]" using that(2) k' by simp
    then have "(map Inr ev :: (error + state) list) ! k = steps p (nat ((1 + int k') * ?N)) s0"
      unfolding ev' k' by (simp add: up)
    moreover have "nat ((1 + int k') * ?N) = k * nat ?N"
    proof -
      have "1 + int k' = int k" using k' by simp
      then show ?thesis by (simp add: nat_mult_distrib)
    qed
    ultimately show ?thesis using k by simp
  qed
  then have entries: "\<forall>k. 1 \<le> k \<and> int k \<le> ?K \<longrightarrow> steps p (k * nat ?N) s0 = Inr (ev ! k)"
    by blast
  show ?thesis
    by (intro exI [of _ s0] exI [of _ ev] conjI init run len zero entries ev)
qed

theorem sampling_cadence_witness:
  "\<exists>s0 ev. initialize (default_params\<lparr>N_POINTS := 2, N_TIMES := 5, N_STEPS := 2\<rparr>) = Inr s0
     \<and> run (default_params\<lparr>N_POINTS := 2, N_TIMES := 5, N_STEPS := 2\<rparr>) = Inr ev
     \<and> length ev = 3 \<and> ev ! 0 = s0
     \<and> steps (default_params\<lparr>N_POINTS := 2, N_TIMES := 5, N_STEPS := 2\<rparr>) 4 s0 = Inr (ev ! 2)"
proof -
  let ?p = "default_params\<lparr>N_POINTS := 2, N_TIMES := 5, N_STEPS := 2\<rparr>"
  have "0 < N_POINTS ?p" "0 < N_STEPS ?p" "0 \<le> N_TIMES ?p"
    by simp_all
  from sampling_cadence [OF this]
  obtain s0 ev where "initialize ?p = Inr s0" "run ?p = Inr ev"
    "int (length ev) = 1 + N_TIMES ?p div N_STEPS ?p" "ev ! 0 = s0"
    and k: "\<forall>k. 1 \<le> k \<and> int k \<le> N_TIMES ?p div N_STEPS ?p \<longrightarrow>
             steps ?p (k * nat (N_STEPS ?p)) s0 = Inr (ev ! k)"
    by blast
  moreover have "steps ?p (2 * nat (N_STEPS ?p)) s0 = Inr (ev ! 2)"
    by (rule k [rule_format]) simp
  ultimately show ?thesis
    by (intro exI [of _ s0] exI [of _ ev]) simp
qed

end
